theory Spec2Isabelle
  imports Main
begin

section \<open>Text of the normalizer\<close>

text \<open>
  \<^verbatim>\<open>optimize_json\<close> of \<^verbatim>\<open>src/tt_build/cli.py\<close> works on Python \<^verbatim>\<open>str\<close> values: sequences
  of Unicode code points. A code point is a natural number here, so that the byte order
  mark U+FEFF and the no-break space U+00A0 of the source are ordinary characters.
  \<open>u\<close> turns an ASCII literal into such a text.
\<close>

type_synonym uchar = nat
type_synonym ustr = "nat list"

definition u :: "string \<Rightarrow> ustr" where
  "u s = map of_char s"

abbreviation c_quote :: uchar where "c_quote \<equiv> 34"
abbreviation c_backslash :: uchar where "c_backslash \<equiv> 92"
abbreviation c_slash :: uchar where "c_slash \<equiv> 47"
abbreviation c_lbracket :: uchar where "c_lbracket \<equiv> 91"
abbreviation c_rbracket :: uchar where "c_rbracket \<equiv> 93"
abbreviation c_lbrace :: uchar where "c_lbrace \<equiv> 123"
abbreviation c_rbrace :: uchar where "c_rbrace \<equiv> 125"
abbreviation c_comma :: uchar where "c_comma \<equiv> 44"
abbreviation c_colon :: uchar where "c_colon \<equiv> 58"
abbreviation c_semicolon :: uchar where "c_semicolon \<equiv> 59"
abbreviation c_space :: uchar where "c_space \<equiv> 32"
abbreviation c_tab :: uchar where "c_tab \<equiv> 9"
abbreviation c_newline :: uchar where "c_newline \<equiv> 10"
abbreviation c_return :: uchar where "c_return \<equiv> 13"
abbreviation c_nbsp :: uchar where "c_nbsp \<equiv> 160"
abbreviation c_bom :: uchar where "c_bom \<equiv> 65279"

subsection \<open>Comment stripping (lines 51 to 63)\<close>

text \<open>
  The loop \<^verbatim>\<open>for i, char in enumerate(line)\<close> with its flag \<^verbatim>\<open>in_str\<close>. The function
  returns what the loop leaves in \<^verbatim>\<open>line\<close>: the characters before the first \<^verbatim>\<open>//\<close> met
  outside a string, or the whole line. In the branch for a backslash the source has
  \<^verbatim>\<open>continue\<close>, which goes on with the next character and leaves \<^verbatim>\<open>in_str\<close> as it is.
\<close>

fun scan_comment :: "bool \<Rightarrow> ustr \<Rightarrow> ustr" where
  "scan_comment in_str [] = []"
| "scan_comment in_str (c # cs) =
     (if in_str then
        (if c = c_backslash then c # scan_comment in_str cs
         else if c = c_quote then c # scan_comment False cs
         else c # scan_comment in_str cs)
      else if c = c_quote then c # scan_comment True cs
      else if c = c_slash \<and> (case cs of [] \<Rightarrow> False | d # _ \<Rightarrow> d = c_slash) then []
      else c # scan_comment in_str cs)"

text \<open>The state \<^verbatim>\<open>in_str\<close> of the same loop after it has read a text without stopping.\<close>

fun scan_state :: "bool \<Rightarrow> ustr \<Rightarrow> bool" where
  "scan_state in_str [] = in_str"
| "scan_state in_str (c # cs) =
     (if in_str then
        (if c = c_backslash then scan_state in_str cs
         else if c = c_quote then scan_state False cs
         else scan_state in_str cs)
      else if c = c_quote then scan_state True cs
      else scan_state in_str cs)"

text \<open>\<^verbatim>\<open>"//" in line\<close>\<close>

fun contains_slashes :: "ustr \<Rightarrow> bool" where
  "contains_slashes (c # d # cs) = ((c = c_slash \<and> d = c_slash) \<or> contains_slashes (d # cs))"
| "contains_slashes _ = False"

definition strip_comment :: "ustr \<Rightarrow> ustr" where
  "strip_comment line = (if contains_slashes line then scan_comment False line else line)"

subsection \<open>Character replacement (lines 68 to 74)\<close>

text \<open>
  \<^verbatim>\<open>str.replace\<close> with a pattern of one character. The seven calls of the source, in
  order: U+FEFF is removed, \<^verbatim>\<open>;\<close> becomes \<^verbatim>\<open>,\<close>, a tab becomes a space, a carriage return
  is removed, a newline becomes a space, a space (U+0020) is replaced by a space (U+0020),
  and U+00A0 is removed.
\<close>

definition replace_char :: "uchar \<Rightarrow> ustr \<Rightarrow> ustr \<Rightarrow> ustr" where
  "replace_char old new line = concat (map (\<lambda>c. if c = old then new else [c]) line)"

definition replace_chars :: "ustr \<Rightarrow> ustr" where
  "replace_chars line =
     replace_char c_nbsp []
       (replace_char c_space [c_space]
         (replace_char c_newline [c_space]
           (replace_char c_return []
             (replace_char c_tab [c_space]
               (replace_char c_semicolon [c_comma]
                 (replace_char c_bom [] line))))))"

subsection \<open>Bracket truncation (lines 79 to 94)\<close>

text \<open>
  The loop over \<^verbatim>\<open>range(len(full_string))\<close> with \<^verbatim>\<open>stack\<close> and \<^verbatim>\<open>in_str\<close>. It returns what
  the loop leaves in \<^verbatim>\<open>full_string\<close>: the text up to and including the \<^verbatim>\<open>]\<close> at which
  \<^verbatim>\<open>stack\<close> becomes zero, or the whole text when the loop ends without \<^verbatim>\<open>break\<close>.
\<close>

fun truncate_scan :: "int \<Rightarrow> bool \<Rightarrow> ustr \<Rightarrow> ustr" where
  "truncate_scan stack in_str [] = []"
| "truncate_scan stack in_str (c # cs) =
     (if in_str then
        (if c = c_quote then c # truncate_scan stack False cs
         else c # truncate_scan stack in_str cs)
      else if c = c_quote then c # truncate_scan stack True cs
      else if c = c_lbracket then c # truncate_scan (stack + 1) in_str cs
      else if c = c_rbracket then
        (let stack' = stack - 1 in
         if stack' = 0 then [c] else c # truncate_scan stack' in_str cs)
      else c # truncate_scan stack in_str cs)"

definition truncate_text :: "ustr \<Rightarrow> ustr" where
  "truncate_text full_string = truncate_scan 0 False full_string"

text \<open>
  The truncation as the specification words it: a scan from the left with a string
  toggle that only quotes flip and a signed depth counter; \<open>scan_prefix s i\<close> is the pair
  (depth, in string) once the first \<open>i\<close> characters are read, and \<open>closes_at s i\<close> says
  that position \<open>i\<close> holds a \<^verbatim>\<open>]\<close> outside a string at which the depth is back to zero
  after having been positive.
\<close>

fun depth_step :: "int \<times> bool \<Rightarrow> uchar \<Rightarrow> int \<times> bool" where
  "depth_step (depth, in_string) c =
     (if in_string then (depth, c \<noteq> c_quote)
      else if c = c_quote then (depth, True)
      else if c = c_lbracket then (depth + 1, False)
      else if c = c_rbracket then (depth - 1, False)
      else (depth, False))"

definition scan_prefix :: "ustr \<Rightarrow> nat \<Rightarrow> int \<times> bool" where
  "scan_prefix s i = foldl depth_step (0, False) (take i s)"

definition closes_at :: "ustr \<Rightarrow> nat \<Rightarrow> bool" where
  "closes_at s i \<longleftrightarrow>
     i < length s \<and> s ! i = c_rbracket \<and> \<not> snd (scan_prefix s i)
     \<and> fst (scan_prefix s (Suc i)) = 0
     \<and> (\<exists>j\<in>{..i}. 0 < fst (scan_prefix s j))"

text \<open>The same condition from an arbitrary scanner state, for the induction.\<close>

definition gen_closes :: "int \<times> bool \<Rightarrow> ustr \<Rightarrow> nat \<Rightarrow> bool" where
  "gen_closes st s i \<longleftrightarrow>
     i < length s \<and> s ! i = c_rbracket \<and> \<not> snd (foldl depth_step st (take i s))
     \<and> fst (foldl depth_step st (take (Suc i) s)) = 0"

section \<open>Decoded values\<close>

text \<open>
  What \<^verbatim>\<open>json.loads\<close> returns. Python's \<^verbatim>\<open>int\<close> is unbounded; a \<^verbatim>\<open>dict\<close> keeps its keys
  in insertion order and is an association list with distinct keys; the type \<open>'f\<close>
  stands for Python's \<^verbatim>\<open>float\<close>, which the normalizer only carries from the decoder to
  the encoder.
\<close>

datatype 'f json =
    JNull
  | JBool bool
  | JInt int
  | JFloat 'f
  | JStr ustr
  | JArr "'f json list"
  | JObj "(ustr \<times> 'f json) list"

text \<open>
  The exceptions that leave \<^verbatim>\<open>optimize_json\<close>. \<open>PrivilegedTag\<close> is the \<^verbatim>\<open>Exception\<close> of
  line 107; it carries the value of \<^verbatim>\<open>plugin_id\<close> that the message is formatted with.
  \<open>RecursionError\<close> is what the decoder of this development answers when its fuel runs
  out, which never happens (see \<open>loads_fuel_suffices\<close>).
\<close>

datatype 'f error =
    UnicodeDecodeError
  | JSONDecodeError
  | RecursionError
  | TypeError
  | AttributeError
  | PrivilegedTag "'f json"

text \<open>
  The operations on \<^verbatim>\<open>dict\<close> that the loop uses: \<^verbatim>\<open>keys()\<close>, \<^verbatim>\<open>get(k, default)\<close>,
  \<^verbatim>\<open>del d[k]\<close> and \<^verbatim>\<open>d[k] = v\<close> (in place when the key exists, at the end otherwise).
\<close>

definition dict_keys :: "(ustr \<times> 'v) list \<Rightarrow> ustr list" where
  "dict_keys d = map fst d"

definition dict_get :: "(ustr \<times> 'v) list \<Rightarrow> ustr \<Rightarrow> 'v \<Rightarrow> 'v" where
  "dict_get d k dflt = (case map_of d k of None \<Rightarrow> dflt | Some v \<Rightarrow> v)"

definition dict_del :: "ustr \<Rightarrow> (ustr \<times> 'v) list \<Rightarrow> (ustr \<times> 'v) list" where
  "dict_del k d = filter (\<lambda>p. fst p \<noteq> k) d"

fun dict_set :: "ustr \<Rightarrow> 'v \<Rightarrow> (ustr \<times> 'v) list \<Rightarrow> (ustr \<times> 'v) list" where
  "dict_set k v [] = [(k, v)]"
| "dict_set k v (p # ps) = (if fst p = k then (k, v) # ps else p # dict_set k v ps)"

text \<open>
  The body of the loop of lines 99 to 120 for one \<^verbatim>\<open>dict\<close>. \<^verbatim>\<open>obj_keys\<close> is taken before any
  change. The calls of \<^verbatim>\<open>logger\<close> write to the log and do not change the result.
\<close>

definition process_obj :: "(ustr \<times> 'f json) list \<Rightarrow> 'f error + (ustr \<times> 'f json) list" where
  "process_obj arr_obj =
     (let obj_keys = dict_keys arr_obj;
          plugin_id = dict_get arr_obj (u ''id'') (JStr (u ''unknown id''))
      in if u ''privileged'' \<in> set obj_keys then Inl (PrivilegedTag plugin_id)
         else
           let o1 = (if u ''strict lua'' \<in> set obj_keys
                     then dict_del (u ''strict lua'') arr_obj else arr_obj);
               o2 = (if u ''script'' \<in> set obj_keys \<or> u ''scripts'' \<in> set obj_keys
                     then dict_set (u ''mute lua'') (JBool True) o1 else o1)
           in Inr o2)"

text \<open>
  The loop body for any element: \<^verbatim>\<open>arr_obj.copy().keys()\<close> raises \<^verbatim>\<open>AttributeError\<close> for
  every value that is not a \<^verbatim>\<open>dict\<close> (a \<^verbatim>\<open>list\<close> has \<^verbatim>\<open>copy\<close> but no \<^verbatim>\<open>keys\<close>, the others
  have no \<^verbatim>\<open>copy\<close>).
\<close>

fun process_element :: "'f json \<Rightarrow> 'f error + 'f json" where
  "process_element (JObj d) =
     (case process_obj d of Inl e \<Rightarrow> Inl e | Inr d' \<Rightarrow> Inr (JObj d'))"
| "process_element _ = Inl AttributeError"

fun process_elements :: "'f json list \<Rightarrow> 'f error + 'f json list" where
  "process_elements [] = Inr []"
| "process_elements (x # xs) =
     (case process_element x of
        Inl e \<Rightarrow> Inl e
      | Inr x' \<Rightarrow> (case process_elements xs of Inl e \<Rightarrow> Inl e | Inr xs' \<Rightarrow> Inr (x' # xs')))"

text \<open>
  \<^verbatim>\<open>for arr_obj in data\<close>: a \<^verbatim>\<open>list\<close> gives its elements; a \<^verbatim>\<open>dict\<close> gives its keys and a
  \<^verbatim>\<open>str\<close> its characters, which are strings and raise \<^verbatim>\<open>AttributeError\<close> in the body, so
  that only the empty ones pass; a number, a boolean or \<^verbatim>\<open>None\<close> is not iterable.
\<close>

fun postprocess :: "'f json \<Rightarrow> 'f error + 'f json" where
  "postprocess (JArr xs) =
     (case process_elements xs of Inl e \<Rightarrow> Inl e | Inr xs' \<Rightarrow> Inr (JArr xs'))"
| "postprocess (JObj d) = (if d = [] then Inr (JObj d) else Inl AttributeError)"
| "postprocess (JStr s) = (if s = [] then Inr (JStr s) else Inl AttributeError)"
| "postprocess _ = Inl TypeError"

text \<open>
  \<^verbatim>\<open>json.dumps(data, ensure_ascii=False)\<close>: the separators are the defaults \<^verbatim>\<open>", "\<close> and
  \<^verbatim>\<open>": "\<close>; a string is escaped by \<^verbatim>\<open>ESCAPE_DCT\<close> (the quote, the backslash and the
  characters below U+0020) and everything else is written as it is; \<open>floatstr\<close> is
  the encoder's text of a float.
\<close>

function digits_of_nat :: "nat \<Rightarrow> ustr" where
  "digits_of_nat n = (if n < 10 then [48 + n] else digits_of_nat (n div 10) @ [48 + n mod 10])"
  by pat_completeness auto
termination
  by (relation "measure id") auto

declare digits_of_nat.simps [simp del]

definition int_repr :: "int \<Rightarrow> ustr" where
  "int_repr i = (if i < 0 then 45 # digits_of_nat (nat (- i)) else digits_of_nat (nat i))"

definition hex_digit :: "nat \<Rightarrow> uchar" where
  "hex_digit d = (if d < 10 then 48 + d else 87 + d)"

definition escape_char :: "uchar \<Rightarrow> ustr" where
  "escape_char c =
     (if c = c_backslash then [c_backslash, c_backslash]
      else if c = c_quote then [c_backslash, c_quote]
      else if c = 8 then [c_backslash, 98]
      else if c = 12 then [c_backslash, 102]
      else if c = c_newline then [c_backslash, 110]
      else if c = c_return then [c_backslash, 114]
      else if c = c_tab then [c_backslash, 116]
      else if c < 32 then [c_backslash, 117, 48, 48, hex_digit (c div 16), hex_digit (c mod 16)]
      else [c])"

definition encode_basestring :: "ustr \<Rightarrow> ustr" where
  "encode_basestring s = c_quote # concat (map escape_char s) @ [c_quote]"

fun join :: "ustr \<Rightarrow> ustr list \<Rightarrow> ustr" where
  "join sep [] = []"
| "join sep [x] = x"
| "join sep (x # y # ys) = x @ sep @ join sep (y # ys)"

fun dumps :: "('f \<Rightarrow> ustr) \<Rightarrow> 'f json \<Rightarrow> ustr" where
  "dumps floatstr JNull = u ''null''"
| "dumps floatstr (JBool b) = (if b then u ''true'' else u ''false'')"
| "dumps floatstr (JInt i) = int_repr i"
| "dumps floatstr (JFloat f) = floatstr f"
| "dumps floatstr (JStr s) = encode_basestring s"
| "dumps floatstr (JArr xs) =
     c_lbracket # join (u '', '') (map (dumps floatstr) xs) @ [c_rbracket]"
| "dumps floatstr (JObj d) =
     c_lbrace # join (u '', '')
        (map (\<lambda>p. encode_basestring (fst p) @ u '': '' @ dumps floatstr (snd p)) d)
      @ [c_rbrace]"

subsection \<open>Decoding\<close>

text \<open>
  \<^verbatim>\<open>json.loads\<close> on a \<^verbatim>\<open>str\<close>, after the scanner of the standard library
  (\<^verbatim>\<open>json.decoder\<close>, \<^verbatim>\<open>json.scanner\<close>). Each function reads at the head of the remaining
  text and returns the rest. The nesting of values is bounded by a fuel; \<open>float_of\<close>
  is Python's \<^verbatim>\<open>float\<close> applied to the text of a number with a fraction or an exponent, or
  to the names \<^verbatim>\<open>NaN\<close>, \<^verbatim>\<open>Infinity\<close> and \<^verbatim>\<open>-Infinity\<close>.
\<close>

datatype 'a presult = OutOfFuel | Fail | Ok 'a ustr

definition is_json_ws :: "uchar \<Rightarrow> bool" where
  "is_json_ws c \<longleftrightarrow> c = c_space \<or> c = c_tab \<or> c = c_newline \<or> c = c_return"

definition skip_ws :: "ustr \<Rightarrow> ustr" where
  "skip_ws s = dropWhile is_json_ws s"

definition is_digit :: "uchar \<Rightarrow> bool" where
  "is_digit c \<longleftrightarrow> 48 \<le> c \<and> c \<le> 57"

definition hex_value :: "uchar \<Rightarrow> nat option" where
  "hex_value c =
     (if 48 \<le> c \<and> c \<le> 57 then Some (c - 48)
      else if 97 \<le> c \<and> c \<le> 102 then Some (c - 87)
      else if 65 \<le> c \<and> c \<le> 70 then Some (c - 55)
      else None)"

fun decode_hex4 :: "ustr \<Rightarrow> nat option" where
  "decode_hex4 [a, b, c, d] =
     (case (hex_value a, hex_value b, hex_value c, hex_value d) of
        (Some x, Some y, Some z, Some w) \<Rightarrow> Some (((x * 16 + y) * 16 + z) * 16 + w)
      | _ \<Rightarrow> None)"
| "decode_hex4 _ = None"

definition backslash_char :: "uchar \<Rightarrow> uchar option" where
  "backslash_char e =
     (if e = c_quote then Some c_quote
      else if e = c_backslash then Some c_backslash
      else if e = c_slash then Some c_slash
      else if e = 98 then Some 8
      else if e = 102 then Some 12
      else if e = 110 then Some c_newline
      else if e = 114 then Some c_return
      else if e = 116 then Some c_tab
      else None)"

fun scanstring :: "ustr \<Rightarrow> (ustr \<times> ustr) option" where
  "scanstring [] = None"
| "scanstring (c # cs) =
     (if c = c_quote then Some ([], cs)
      else if c = c_backslash then
        (case cs of
           [] \<Rightarrow> None
         | e # es \<Rightarrow>
             if e = 117 then
               (case decode_hex4 (take 4 es) of
                  None \<Rightarrow> None
                | Some uni \<Rightarrow>
                    if 55296 \<le> uni \<and> uni \<le> 56319 \<and> take 2 (drop 4 es) = [c_backslash, 117] then
                      (case decode_hex4 (take 4 (drop 6 es)) of
                         None \<Rightarrow> None
                       | Some uni2 \<Rightarrow>
                           if 56320 \<le> uni2 \<and> uni2 \<le> 57343 then
                             map_option (\<lambda>(str, rest). ((65536 + ((uni - 55296) * 1024 + (uni2 - 56320))) # str, rest))
                               (scanstring (drop 10 es))
                           else
                             map_option (\<lambda>(str, rest). (uni # str, rest)) (scanstring (drop 4 es)))
                    else map_option (\<lambda>(str, rest). (uni # str, rest)) (scanstring (drop 4 es)))
             else
               (case backslash_char e of
                  None \<Rightarrow> None
                | Some ch \<Rightarrow> map_option (\<lambda>(str, rest). (ch # str, rest)) (scanstring es)))
      else if c < 32 then None
      else map_option (\<lambda>(str, rest). (c # str, rest)) (scanstring cs))"

definition nat_of_digits :: "ustr \<Rightarrow> nat" where
  "nat_of_digits ds = foldl (\<lambda>a d. 10 * a + (d - 48)) 0 ds"

text \<open>
  \<^verbatim>\<open>NUMBER_RE\<close>: \<^verbatim>\<open>(-?(?:0|[1-9][0-9]*))(\.[0-9]+)?([eE][-+]?[0-9]+)?\<close>, its three groups in
  turn.
\<close>

definition match_integer :: "ustr \<Rightarrow> (ustr \<times> ustr) option" where
  "match_integer s =
     (let (sign, s1) = (case s of c # cs \<Rightarrow> if c = 45 then ([c], cs) else ([], s) | [] \<Rightarrow> ([], s))
      in case s1 of
           [] \<Rightarrow> None
         | c # cs \<Rightarrow>
             if c = 48 then Some (sign @ [c], cs)
             else if 49 \<le> c \<and> c \<le> 57 then Some (sign @ c # takeWhile is_digit cs, dropWhile is_digit cs)
             else None)"

definition match_frac :: "ustr \<Rightarrow> ustr \<times> ustr" where
  "match_frac s =
     (case s of
        c # cs \<Rightarrow>
          if c = 46 \<and> takeWhile is_digit cs \<noteq> [] then (c # takeWhile is_digit cs, dropWhile is_digit cs)
          else ([], s)
      | [] \<Rightarrow> ([], s))"

definition match_exp :: "ustr \<Rightarrow> ustr \<times> ustr" where
  "match_exp s =
     (case s of
        c # cs \<Rightarrow>
          if c = 101 \<or> c = 69 then
            (let (sign, s1) = (case cs of d # ds \<Rightarrow> if d = 45 \<or> d = 43 then ([d], ds) else ([], cs) | [] \<Rightarrow> ([], cs))
             in if takeWhile is_digit s1 \<noteq> [] then (c # sign @ takeWhile is_digit s1, dropWhile is_digit s1)
                else ([], s))
          else ([], s)
      | [] \<Rightarrow> ([], s))"

definition int_of_literal :: "ustr \<Rightarrow> int" where
  "int_of_literal t =
     (case t of
        c # cs \<Rightarrow> if c = 45 then - int (nat_of_digits cs) else int (nat_of_digits t)
      | [] \<Rightarrow> 0)"

definition parse_number :: "(ustr \<Rightarrow> 'f) \<Rightarrow> ustr \<Rightarrow> ('f json \<times> ustr) option" where
  "parse_number float_of s =
     (case match_integer s of
        None \<Rightarrow> None
      | Some (integer, s1) \<Rightarrow>
          (let (frac, s2) = match_frac s1; (ex, s3) = match_exp s2
           in if frac \<noteq> [] \<or> ex \<noteq> [] then Some (JFloat (float_of (integer @ frac @ ex)), s3)
              else Some (JInt (int_of_literal integer), s3)))"

definition starts_with :: "ustr \<Rightarrow> ustr \<Rightarrow> bool" where
  "starts_with p s \<longleftrightarrow> take (length p) s = p"

definition dict_of_pairs :: "(ustr \<times> 'v) list \<Rightarrow> (ustr \<times> 'v) list" where
  "dict_of_pairs ps = foldl (\<lambda>d p. dict_set (fst p) (snd p) d) [] ps"

fun parse_value :: "(ustr \<Rightarrow> 'f) \<Rightarrow> nat \<Rightarrow> ustr \<Rightarrow> 'f json presult"
  and parse_elems :: "(ustr \<Rightarrow> 'f) \<Rightarrow> nat \<Rightarrow> ustr \<Rightarrow> 'f json list presult"
  and parse_members :: "(ustr \<Rightarrow> 'f) \<Rightarrow> nat \<Rightarrow> ustr \<Rightarrow> (ustr \<times> 'f json) list presult"
where
  "parse_value float_of 0 s = OutOfFuel"
| "parse_value float_of (Suc n) s =
     (case s of
        [] \<Rightarrow> Fail
      | c # cs \<Rightarrow>
          if c = c_quote then
            (case scanstring cs of None \<Rightarrow> Fail | Some (str, rest) \<Rightarrow> Ok (JStr str) rest)
          else if c = c_lbrace then
            (case skip_ws cs of
               [] \<Rightarrow> Fail
             | d # ds \<Rightarrow>
                 if d = c_rbrace then Ok (JObj []) ds
                 else if d = c_quote then
                   (case parse_members float_of n ds of
                      Ok pairs rest \<Rightarrow> Ok (JObj (dict_of_pairs pairs)) rest
                    | Fail \<Rightarrow> Fail
                    | OutOfFuel \<Rightarrow> OutOfFuel)
                 else Fail)
          else if c = c_lbracket then
            (case skip_ws cs of
               [] \<Rightarrow> Fail
             | d # ds \<Rightarrow>
                 if d = c_rbracket then Ok (JArr []) ds
                 else
                   (case parse_elems float_of n (d # ds) of
                      Ok values rest \<Rightarrow> Ok (JArr values) rest
                    | Fail \<Rightarrow> Fail
                    | OutOfFuel \<Rightarrow> OutOfFuel))
          else if starts_with (u ''null'') s then Ok JNull (drop 4 s)
          else if starts_with (u ''true'') s then Ok (JBool True) (drop 4 s)
          else if starts_with (u ''false'') s then Ok (JBool False) (drop 5 s)
          else
            (case parse_number float_of s of
               Some (v, rest) \<Rightarrow> Ok v rest
             | None \<Rightarrow>
                 if starts_with (u ''NaN'') s then Ok (JFloat (float_of (u ''NaN''))) (drop 3 s)
                 else if starts_with (u ''Infinity'') s then Ok (JFloat (float_of (u ''Infinity''))) (drop 8 s)
                 else if starts_with (u ''-Infinity'') s then Ok (JFloat (float_of (u ''-Infinity''))) (drop 9 s)
                 else Fail))"
| "parse_elems float_of 0 s = OutOfFuel"
| "parse_elems float_of (Suc n) s =
     (case parse_value float_of n s of
        OutOfFuel \<Rightarrow> OutOfFuel
      | Fail \<Rightarrow> Fail
      | Ok v rest \<Rightarrow>
          (case skip_ws rest of
             [] \<Rightarrow> Fail
           | d # ds \<Rightarrow>
               if d = c_rbracket then Ok [v] ds
               else if d = c_comma then
                 (case parse_elems float_of n (skip_ws ds) of
                    Ok vs rest' \<Rightarrow> Ok (v # vs) rest'
                  | Fail \<Rightarrow> Fail
                  | OutOfFuel \<Rightarrow> OutOfFuel)
               else Fail))"
| "parse_members float_of 0 s = OutOfFuel"
| "parse_members float_of (Suc n) s =
     (case scanstring s of
        None \<Rightarrow> Fail
      | Some (key, rest) \<Rightarrow>
          (case skip_ws rest of
             [] \<Rightarrow> Fail
           | d # ds \<Rightarrow>
               if d \<noteq> c_colon then Fail
               else
                 (case parse_value float_of n (skip_ws ds) of
                    OutOfFuel \<Rightarrow> OutOfFuel
                  | Fail \<Rightarrow> Fail
                  | Ok v rest1 \<Rightarrow>
                      (case skip_ws rest1 of
                         [] \<Rightarrow> Fail
                       | e # es \<Rightarrow>
                           if e = c_rbrace then Ok [(key, v)] es
                           else if e = c_comma then
                             (case skip_ws es of
                                [] \<Rightarrow> Fail
                              | q # qs \<Rightarrow>
                                  if q \<noteq> c_quote then Fail
                                  else
                                    (case parse_members float_of n qs of
                                       Ok ps rest2 \<Rightarrow> Ok ((key, v) # ps) rest2
                                     | Fail \<Rightarrow> Fail
                                     | OutOfFuel \<Rightarrow> OutOfFuel))
                           else Fail))))"

definition loads :: "(ustr \<Rightarrow> 'f) \<Rightarrow> ustr \<Rightarrow> 'f error + 'f json" where
  "loads float_of s =
     (if starts_with [c_bom] s then Inl JSONDecodeError
      else
        (case parse_value float_of (2 * length s + 1) (skip_ws s) of
           OutOfFuel \<Rightarrow> Inl RecursionError
         | Fail \<Rightarrow> Inl JSONDecodeError
         | Ok v rest \<Rightarrow> if skip_ws rest = [] then Inr v else Inl JSONDecodeError))"

section \<open>Bare values (line 65)\<close>

text \<open>
  The pattern of line 65,
  \<^verbatim>\<open>("[^"]*"\s*:\s*)([^"\[{\s][^,}\]"]*[a-zA-Z][^,}\]"\s]*)(\s*[,}])\<close>,
  is a sequence of single characters and greedy starred character classes. \<open>rmatch\<close>
  is the backtracking matcher for such sequences: a starred class first tries to take
  one more character and gives it back when the rest of the pattern fails. It returns
  the text matched by each item and the rest of the line.
\<close>

datatype item = One "uchar \<Rightarrow> bool" | Many "uchar \<Rightarrow> bool"

fun rmatch :: "item list \<Rightarrow> ustr \<Rightarrow> (ustr list \<times> ustr) option" where
  "rmatch [] s = Some ([], s)"
| "rmatch (One p # items) [] = None"
| "rmatch (One p # items) (c # cs) =
     (if p c then
        (case rmatch items cs of
           Some (ms, rest) \<Rightarrow> Some ([c] # ms, rest)
         | None \<Rightarrow> None)
      else None)"
| "rmatch (Many p # items) [] =
     (case rmatch items [] of
        Some (ms, rest) \<Rightarrow> Some ([] # ms, rest)
      | None \<Rightarrow> None)"
| "rmatch (Many p # items) (c # cs) =
     (case (if p c then rmatch (Many p # items) cs else None) of
        Some (m # ms, rest) \<Rightarrow> Some ((c # m) # ms, rest)
      | _ \<Rightarrow>
          (case rmatch items (c # cs) of
             Some (ms, rest) \<Rightarrow> Some ([] # ms, rest)
           | None \<Rightarrow> None))"

text \<open>\<^verbatim>\<open>\s\<close> on a \<^verbatim>\<open>str\<close> pattern is Unicode white space; \<^verbatim>\<open>[a-zA-Z]\<close> is ASCII.\<close>

definition is_space :: "uchar \<Rightarrow> bool" where
  "is_space c \<longleftrightarrow>
     (9 \<le> c \<and> c \<le> 13) \<or> (28 \<le> c \<and> c \<le> 32) \<or> c = 133 \<or> c = 160 \<or> c = 5760
     \<or> (8192 \<le> c \<and> c \<le> 8202) \<or> c = 8232 \<or> c = 8233 \<or> c = 8239 \<or> c = 8287
     \<or> c = 12288"

definition is_letter :: "uchar \<Rightarrow> bool" where
  "is_letter c \<longleftrightarrow> (97 \<le> c \<and> c \<le> 122) \<or> (65 \<le> c \<and> c \<le> 90)"

definition key_prefix :: "item list" where
  "key_prefix =
     [One (\<lambda>c. c = c_quote), Many (\<lambda>c. c \<noteq> c_quote), One (\<lambda>c. c = c_quote),
      Many is_space, One (\<lambda>c. c = c_colon), Many is_space]"

definition bare_token :: "item list" where
  "bare_token =
     [One (\<lambda>c. c \<noteq> c_quote \<and> c \<noteq> c_lbracket \<and> c \<noteq> c_lbrace \<and> \<not> is_space c),
      Many (\<lambda>c. c \<noteq> c_comma \<and> c \<noteq> c_rbrace \<and> c \<noteq> c_rbracket \<and> c \<noteq> c_quote),
      One is_letter,
      Many (\<lambda>c. c \<noteq> c_comma \<and> c \<noteq> c_rbrace \<and> c \<noteq> c_rbracket \<and> c \<noteq> c_quote \<and> \<not> is_space c)]"

definition terminator :: "item list" where
  "terminator = [Many is_space, One (\<lambda>c. c = c_comma \<or> c = c_rbrace)]"

definition pattern :: "item list" where
  "pattern = key_prefix @ bare_token @ terminator"

definition match_here :: "ustr \<Rightarrow> (ustr \<times> ustr \<times> ustr \<times> ustr) option" where
  "match_here s =
     (case rmatch pattern s of
        None \<Rightarrow> None
      | Some (ms, rest) \<Rightarrow>
          Some (concat (take 6 ms), concat (take 4 (drop 6 ms)), concat (drop 10 ms), rest))"

text \<open>
  \<^verbatim>\<open>re.sub\<close> with the replacement \<^verbatim>\<open>\1"\2"\3\<close>: the matches are searched from the left and do
  not overlap. \<open>skip\<close> counts the characters of the last match that are still to be
  passed over; a match of this pattern is never empty.
\<close>

fun sub_scan :: "nat \<Rightarrow> ustr \<Rightarrow> ustr" where
  "sub_scan skip [] = []"
| "sub_scan (Suc skip) (c # cs) = sub_scan skip cs"
| "sub_scan 0 (c # cs) =
     (case match_here (c # cs) of
        Some (g1, g2, g3, rest) \<Rightarrow>
          g1 @ [c_quote] @ g2 @ [c_quote] @ g3 @ sub_scan (length (g1 @ g2 @ g3) - 1) cs
      | None \<Rightarrow> c # sub_scan 0 cs)"

definition quote_bare_values :: "ustr \<Rightarrow> ustr" where
  "quote_bare_values line = sub_scan 0 line"

text \<open>The body of the loop over the lines (51 to 76), after the decoding.\<close>

definition clean_line :: "ustr \<Rightarrow> ustr" where
  "clean_line line = replace_chars (quote_bare_values (strip_comment line))"

text \<open>The elements that are objects, and the objects that have a given key.\<close>

fun is_object :: "'f json \<Rightarrow> bool" where
  "is_object (JObj d) = True"
| "is_object _ = False"


subsection \<open>The function\<close>

text \<open>
  \<^verbatim>\<open>optimize_json\<close> (lines 41 to 122). A line of the file is \<open>Some\<close> text, or \<open>None\<close> when
  its bytes are not UTF-8, in which case \<^verbatim>\<open>decode\<close> raises and nothing is returned.
\<close>

definition optimize_json ::
  "(ustr \<Rightarrow> 'f) \<Rightarrow> ('f \<Rightarrow> ustr) \<Rightarrow> ustr option list \<Rightarrow> 'f error + ustr" where
  "optimize_json float_of floatstr raw_lines =
     (if None \<in> set raw_lines then Inl UnicodeDecodeError
      else
        (let new_lines = map (\<lambda>l. clean_line (the l)) raw_lines;
             full_string = truncate_text (concat new_lines)
         in case loads float_of full_string of
              Inl e \<Rightarrow> Inl e
            | Inr data \<Rightarrow>
                (case postprocess data of
                   Inl e \<Rightarrow> Inl e
                 | Inr data' \<Rightarrow> Inr (dumps floatstr data'))))"

subsection \<open>What a match of the pattern is\<close>

text \<open>
  The text that one item of the pattern accepts, and the three groups of the pattern as
  the specification describes them: a key in quotes, a colon with optional white space
  around it; a token; optional white space and the terminator.
\<close>

fun item_ok :: "item \<Rightarrow> ustr \<Rightarrow> bool" where
  "item_ok (One p) m = (case m of [c] \<Rightarrow> p c | _ \<Rightarrow> False)"
| "item_ok (Many p) m = list_all p m"

definition is_key_prefix :: "ustr \<Rightarrow> bool" where
  "is_key_prefix g \<longleftrightarrow>
     (\<exists>k w1 w2. g = c_quote # k @ c_quote # w1 @ c_colon # w2
        \<and> c_quote \<notin> set k \<and> list_all is_space w1 \<and> list_all is_space w2)"

definition is_bare_token :: "ustr \<Rightarrow> bool" where
  "is_bare_token g \<longleftrightarrow>
     (\<exists>c0 mid l tail. g = c0 # mid @ l # tail
        \<and> c0 \<noteq> c_quote \<and> c0 \<noteq> c_lbracket \<and> c0 \<noteq> c_lbrace \<and> \<not> is_space c0
        \<and> list_all (\<lambda>c. c \<noteq> c_comma \<and> c \<noteq> c_rbrace \<and> c \<noteq> c_rbracket \<and> c \<noteq> c_quote) mid
        \<and> is_letter l
        \<and> list_all (\<lambda>c. c \<noteq> c_comma \<and> c \<noteq> c_rbrace \<and> c \<noteq> c_rbracket \<and> c \<noteq> c_quote
                        \<and> \<not> is_space c) tail)"

definition is_terminator :: "ustr \<Rightarrow> bool" where
  "is_terminator g \<longleftrightarrow>
     (\<exists>w t. g = w @ [t] \<and> list_all is_space w \<and> (t = c_comma \<or> t = c_rbrace))"

subsection \<open>Counting separators\<close>



section \<open>Properties\<close>

text \<open>
  C7. In the comment scanner, the character after a backslash read inside a string is
  not skipped: it is read like any other. On the line \<^verbatim>\<open>["a\"//b"]\<close> the quote after
  the backslash closes the string, and the \<^verbatim>\<open>//\<close> that follows, written inside the
  string value, is cut off as a comment.
\<close>

theorem C7_escaped_quote_is_interpreted:
  "scan_state True (u ''a'' @ [c_backslash]) = True
   \<and> scan_state True (u ''a'' @ [c_backslash, c_quote]) = False
   \<and> strip_comment (u ''[\"a'' @ [c_backslash] @ u ''\"//b\"]'')
       = u ''[\"a'' @ [c_backslash] @ u ''\"''"
  by (simp add: u_def strip_comment_def)

subsection \<open>Truncation\<close>

lemma gen_closes_0:
  "gen_closes (d, q) (c # cs) 0 \<longleftrightarrow> c = c_rbracket \<and> \<not> q \<and> d - 1 = 0"
  by (auto simp: gen_closes_def)

lemma gen_closes_Suc:
  "gen_closes st (c # cs) (Suc i) \<longleftrightarrow> gen_closes (depth_step st c) cs i"
  by (simp add: gen_closes_def)

lemma truncate_scan_first:
  "gen_closes (d, q) s i \<Longrightarrow> \<forall>j<i. \<not> gen_closes (d, q) s j
     \<Longrightarrow> truncate_scan d q s = take (Suc i) s"
proof (induction s arbitrary: d q i)
  case Nil
  then show ?case by (simp add: gen_closes_def)
next
  case (Cons c cs)
  show ?case
  proof (cases i)
    case 0
    with Cons.prems(1) show ?thesis by (simp add: gen_closes_0)
  next
    case (Suc k)
    have n0: "\<not> gen_closes (d, q) (c # cs) 0" using Cons.prems(2) Suc by blast
    obtain d' q' where st: "depth_step (d, q) c = (d', q')" by (cases "depth_step (d, q) c")
    have a: "gen_closes (d', q') cs k" using Cons.prems(1) Suc st by (simp add: gen_closes_Suc)
    have b: "\<forall>j<k. \<not> gen_closes (d', q') cs j"
    proof (intro allI impI)
      fix j assume "j < k"
      then have "\<not> gen_closes (d, q) (c # cs) (Suc j)" using Cons.prems(2) Suc by simp
      then show "\<not> gen_closes (d', q') cs j" using st by (simp add: gen_closes_Suc)
    qed
    have ih: "truncate_scan d' q' cs = take (Suc k) cs" using Cons.IH[OF a b] .
    show ?thesis using ih st n0 Suc
      by (auto simp: gen_closes_0 Let_def split: if_splits)
  qed
qed


lemma scan_prefix_Suc:
  "i < length s \<Longrightarrow> scan_prefix s (Suc i) = depth_step (scan_prefix s i) (s ! i)"
  by (simp add: scan_prefix_def take_Suc_conv_app_nth)

lemma closes_at_iff: "closes_at s i \<longleftrightarrow> gen_closes (0, False) s i"
proof
  assume "closes_at s i"
  then show "gen_closes (0, False) s i"
    by (simp add: closes_at_def gen_closes_def scan_prefix_def)
next
  assume g: "gen_closes (0, False) s i"
  then have i: "i < length s" and r: "s ! i = c_rbracket"
    and q: "\<not> snd (scan_prefix s i)" and z: "fst (scan_prefix s (Suc i)) = 0"
    by (simp_all add: gen_closes_def scan_prefix_def)
  obtain d b where st: "scan_prefix s i = (d, b)" by (cases "scan_prefix s i")
  have "0 < fst (scan_prefix s i)"
    using scan_prefix_Suc[OF i] r q z st by simp
  then have "\<exists>j\<in>{..i}. 0 < fst (scan_prefix s j)" by blast
  with i r q z show "closes_at s i" by (simp add: closes_at_def)
qed

subsection \<open>Evaluating the decoder\<close>

text \<open>
  The fuel of a concrete text is a numeral; these equations let the simplifier unfold the
  decoder on it (with \<open>Suc_numeral\<close> removed, which would fold the fuel back).
\<close>

lemma parse_value_numeral:
  "parse_value fl (numeral k) s = parse_value fl (Suc (pred_numeral k)) s"
  by (simp add: numeral_eq_Suc)

lemma parse_elems_numeral:
  "parse_elems fl (numeral k) s = parse_elems fl (Suc (pred_numeral k)) s"
  by (simp add: numeral_eq_Suc)

lemma parse_members_numeral:
  "parse_members fl (numeral k) s = parse_members fl (Suc (pred_numeral k)) s"
  by (simp add: numeral_eq_Suc)

lemmas json_eval = loads_def u_def starts_with_def skip_ws_def is_json_ws_def
  parse_value_numeral parse_elems_numeral parse_members_numeral
  parse_number_def match_integer_def match_frac_def match_exp_def int_of_literal_def
  nat_of_digits_def dict_of_pairs_def is_digit_def

subsection \<open>Claims on the truncation\<close>

text \<open>
  C4. For every cleaned text, the truncation keeps the text up to and including the first
  \<^verbatim>\<open>]\<close> outside a string (quotes alone toggle the string state) at which the depth
  counter is back to zero after having been positive, and drops the rest. In particular
  \<^verbatim>\<open>[{"a":1}] garbage after\<close> becomes \<^verbatim>\<open>[{"a":1}]\<close>, which decodes to a list of one object.
\<close>

theorem C4_truncates_at_first_balanced_bracket:
  \<open>(closes_at s i \<and> (\<forall>j<i. \<not> closes_at s j) \<longrightarrow> truncate_text s = take (Suc i) s)
   \<and> truncate_text (u ''[{"a":1}] garbage after'') = u ''[{"a":1}]''
   \<and> loads float_of (u ''[{"a":1}]'') = Inr (JArr [JObj [(u ''a'', JInt 1)]])\<close>
proof (intro conjI impI)
  assume a: "closes_at s i \<and> (\<forall>j<i. \<not> closes_at s j)"
  then have "gen_closes (0, False) s i" and "\<forall>j<i. \<not> gen_closes (0, False) s j"
    by (simp_all add: closes_at_iff)
  then show "truncate_text s = take (Suc i) s"
    unfolding truncate_text_def by (rule truncate_scan_first)
next
  show \<open>truncate_text (u ''[{"a":1}] garbage after'') = u ''[{"a":1}]''\<close>
    by (simp add: truncate_text_def u_def)
next
  show \<open>loads float_of (u ''[{"a":1}]'') = Inr (JArr [JObj [(u ''a'', JInt 1)]])\<close>
    by (simp add: json_eval del: Suc_numeral)
qed

text \<open>The instance of C4 at the text of the example, where the bracket closes at index 8.\<close>

lemma no_close_before_8:
  \<open>\<forall>j<8. \<not> closes_at (u ''[{"a":1}] garbage after'') j\<close>
proof (intro allI impI)
  fix j :: nat assume "j < 8"
  then have "j = 0 \<or> j = 1 \<or> j = 2 \<or> j = 3 \<or> j = 4 \<or> j = 5 \<or> j = 6 \<or> j = 7" by arith
  then show \<open>\<not> closes_at (u ''[{"a":1}] garbage after'') j\<close>
    by (auto simp: closes_at_def u_def)
qed

theorem C4_witness:
  \<open>truncate_text (u ''[{"a":1}] garbage after'') = take (Suc 8) (u ''[{"a":1}] garbage after'')\<close>
proof -
  have c: \<open>closes_at (u ''[{"a":1}] garbage after'') 8\<close>
    by (simp add: closes_at_iff gen_closes_def u_def)
  show ?thesis
    using C4_truncates_at_first_balanced_bracket
      [of \<open>u ''[{"a":1}] garbage after''\<close> 8 \<open>\<lambda>_. ()\<close>] c no_close_before_8
    by blast
qed

subsection \<open>Dictionaries and the loop over the elements\<close>



lemma map_of_dict_set: "map_of (dict_set k v d) k' = (if k' = k then Some v else map_of d k')"
  by (induction d) auto

lemma map_of_dict_del: "map_of (dict_del k d) k' = (if k' = k then None else map_of d k')"
  by (induction d) (auto simp: dict_del_def)

lemma u_neq [simp]:
  "u ''strict lua'' \<noteq> u ''mute lua''" "u ''mute lua'' \<noteq> u ''strict lua''"
  by (simp_all add: u_def)





lemma optimize_json_Some:
  "optimize_json ff fs (map Some lines) =
     (case loads ff (truncate_text (concat (map clean_line lines))) of
        Inl e \<Rightarrow> Inl e
      | Inr data \<Rightarrow>
          (case postprocess data of Inl e \<Rightarrow> Inl e | Inr data' \<Rightarrow> Inr (dumps fs data')))"
  by (auto simp: optimize_json_def Let_def comp_def)


text \<open>
  C2. For every decoded object without the key \<^verbatim>\<open>privileged\<close>, the loop body succeeds and
  gives an object in which \<^verbatim>\<open>strict lua\<close> is absent, \<^verbatim>\<open>mute lua\<close> is \<^verbatim>\<open>true\<close> when the object
  had \<^verbatim>\<open>script\<close> or \<^verbatim>\<open>scripts\<close> and is as before otherwise, and every other key has the
  value it had.
\<close>

theorem C2_postprocessing_of_one_object:
  assumes "u ''privileged'' \<notin> set (dict_keys d)"
  shows "\<exists>d'. process_obj d = Inr d'
           \<and> map_of d' (u ''strict lua'') = None
           \<and> (u ''script'' \<in> set (dict_keys d) \<or> u ''scripts'' \<in> set (dict_keys d)
                \<longrightarrow> map_of d' (u ''mute lua'') = Some (JBool True))
           \<and> (u ''script'' \<notin> set (dict_keys d) \<and> u ''scripts'' \<notin> set (dict_keys d)
                \<longrightarrow> map_of d' (u ''mute lua'') = map_of d (u ''mute lua''))
           \<and> (\<forall>k. k \<noteq> u ''strict lua'' \<and> k \<noteq> u ''mute lua'' \<longrightarrow> map_of d' k = map_of d k)"
proof -
  have nk: "u ''strict lua'' \<notin> set (dict_keys d) \<Longrightarrow> map_of d (u ''strict lua'') = None"
    by (simp add: dict_keys_def map_of_eq_None_iff)
  show ?thesis
    using assms nk
    by (auto simp: process_obj_def Let_def map_of_dict_set map_of_dict_del)
qed


text \<open>C2 on the object \<^verbatim>\<open>{"id":"y","strict lua":true,"scripts":[]}\<close>.\<close>

theorem C2_witness:
  "\<exists>d'. process_obj [(u ''id'', JStr (u ''y'')), (u ''strict lua'', JBool True),
                     (u ''scripts'', JArr [])] = Inr d'
     \<and> map_of d' (u ''strict lua'') = None
     \<and> map_of d' (u ''mute lua'') = Some (JBool True :: unit json)"
proof -
  let ?d0 = "[(u ''id'', JStr (u ''y'')), (u ''strict lua'', JBool True),
              (u ''scripts'', JArr [])] :: (ustr \<times> unit json) list"
  have a: "u ''privileged'' \<notin> set (dict_keys ?d0)"
    by (simp add: dict_keys_def u_def)
  have b: "u ''scripts'' \<in> set (dict_keys ?d0)"
    by (simp add: dict_keys_def)
  from C2_postprocessing_of_one_object[OF a]
  obtain d' where p: "process_obj ?d0 = Inr d'"
    and n: "map_of d' (u ''strict lua'') = None"
    and i: "u ''script'' \<in> set (dict_keys ?d0) \<or> u ''scripts'' \<in> set (dict_keys ?d0)
              \<longrightarrow> map_of d' (u ''mute lua'') = Some (JBool True)"
    by blast
  from i b have m: "map_of d' (u ''mute lua'') = Some (JBool True)"
    by (rule_tac mp) (assumption, rule disjI2)
  from p n m show ?thesis by (intro exI conjI)
qed


lemma process_elements_all2:
  "process_elements xs = Inr ys \<Longrightarrow>
   list_all2 (\<lambda>x y. \<exists>d d'. x = JObj d \<and> y = JObj d' \<and> process_obj d = Inr d') xs ys"
proof (induction xs arbitrary: ys)
  case Nil
  then show ?case by simp
next
  case (Cons x xs)
  from Cons.prems obtain x' xs' where x': "process_element x = Inr x'"
    and xs': "process_elements xs = Inr xs'" and ys: "ys = x' # xs'"
    by (auto split: sum.splits)
  from x' obtain d d' where "x = JObj d" "x' = JObj d'" "process_obj d = Inr d'"
    by (cases x) (auto split: sum.splits)
  with Cons.IH[OF xs'] ys show ?case by simp
qed


subsection \<open>Evaluating the whole function\<close>

lemma digits_of_nat_digit: "n < 10 \<Longrightarrow> digits_of_nat n = [48 + n]"
  by (simp add: digits_of_nat.simps)

lemmas clean_eval = clean_line_def strip_comment_def quote_bare_values_def match_here_def
  pattern_def key_prefix_def bare_token_def terminator_def is_space_def is_letter_def
  replace_chars_def replace_char_def truncate_text_def

lemmas dumps_eval = int_repr_def encode_basestring_def escape_char_def digits_of_nat_digit

lemma ex_clean: \<open>clean_line (u ''[{"script":1}]'') = u ''[{"script":1}]''\<close>
  by (simp add: clean_eval u_def)

lemma ex_loads: \<open>loads float_of (u ''[{"script":1}]'') = Inr (JArr [JObj [(u ''script'', JInt 1)]])\<close>
  by (simp add: json_eval del: Suc_numeral)

lemma ex_dec:
  \<open>loads float_of (truncate_text (concat (map clean_line [u ''[{"script":1}]''])))
     = Inr (JArr [JObj [(u ''script'', JInt 1)]])\<close>
proof -
  have \<open>truncate_text (concat (map clean_line [u ''[{"script":1}]''])) = u ''[{"script":1}]''\<close>
    by (simp add: ex_clean) (simp add: truncate_text_def u_def)
  then show ?thesis by (simp only: ex_loads)
qed

lemma ex_opt:
  \<open>optimize_json float_of floatstr (map Some [u ''[{"script":1}]''])
     = Inr (u ''[{"script": 1, "mute lua": true}]'')\<close>
  by (simp only: optimize_json_Some ex_dec)
     (simp add: process_obj_def dict_keys_def dict_get_def u_def dumps_eval)


text \<open>
  C10 (as amended). For every input whose truncated text decodes to a value, a text is
  returned only if the value is a list whose elements are all objects, or the empty object,
  or the empty string; for every other decoded value \<^verbatim>\<open>optimize_json\<close> raises.
\<close>

theorem C10_output_needs_objects_or_empty:
  assumes dec: "loads float_of (truncate_text (concat (map clean_line lines))) = Inr data"
    and ok: "optimize_json float_of floatstr (map Some lines) = Inr out"
  shows "(\<exists>xs. data = JArr xs \<and> list_all is_object xs) \<or> data = JObj [] \<or> data = JStr []"
proof -
  from dec ok obtain data' where pp: "postprocess data = Inr data'"
    by (auto simp: optimize_json_Some split: sum.splits)
  show ?thesis
  proof (cases data)
    case (JArr xs)
    with pp obtain ys where "process_elements xs = Inr ys" by (auto split: sum.splits)
    from process_elements_all2[OF this] have "list_all is_object xs"
      by (induction xs ys rule: list_all2_induct) auto
    with JArr show ?thesis by simp
  qed (use pp in \<open>auto split: if_splits\<close>)
qed

text \<open>C10 on the input \<^verbatim>\<open>[{"script":1}]\<close>.\<close>

theorem C10_witness:
  \<open>(\<exists>xs. JArr [JObj [(u ''script'', JInt 1)] :: unit json] = JArr xs \<and> list_all is_object xs)
    \<or> JArr [JObj [(u ''script'', JInt 1)] :: unit json] = JObj []
    \<or> JArr [JObj [(u ''script'', JInt 1)] :: unit json] = JStr []\<close>
  by (rule C10_output_needs_objects_or_empty
        [OF ex_dec[of \<open>\<lambda>_. ()\<close>] ex_opt[of \<open>\<lambda>_. ()\<close> \<open>\<lambda>_. []\<close>]])

text \<open>
  C10 as first stated fails on the input \<^verbatim>\<open>{}\<close>: it decodes to an object, which is not a
  list of objects, and \<^verbatim>\<open>optimize_json\<close> returns the text \<^verbatim>\<open>{}\<close>.
\<close>

theorem C10_counterexample:
  \<open>loads (\<lambda>_. ()) (truncate_text (concat (map clean_line [u ''{}'']))) = Inr (JObj [])
   \<and> optimize_json (\<lambda>_. ()) (\<lambda>_. []) [Some (u ''{}'')] = Inr (u ''{}'')\<close>
proof -
  have c: \<open>truncate_text (concat (map clean_line [u ''{}''])) = u ''{}''\<close>
    by (simp add: clean_eval u_def)
  have l: \<open>loads (\<lambda>_. ()) (u ''{}'') = Inr (JObj [])\<close>
    by (simp add: json_eval del: Suc_numeral)
  have o: \<open>optimize_json (\<lambda>_. ()) (\<lambda>_. []) (map Some [u ''{}'']) = Inr (u ''{}'')\<close>
    by (simp only: optimize_json_Some c l) (simp add: u_def)
  from c l o show ?thesis by simp
qed





subsection \<open>The encoder\<close>









lemma count_u_sep [simp]:
  "count_list (u '', '') c_space = 1" "count_list (u '': '') c_space = 1"
  "count_list (u ''null'') c_space = 0" "count_list (u ''true'') c_space = 0"
  "count_list (u ''false'') c_space = 0"
  by (simp_all add: u_def)













subsection \<open>The bare value quoter\<close>

text \<open>The matcher returns only texts that the items accept, and finds one whenever there is one.\<close>

lemma rmatch_sound:
  "rmatch items s = Some (ms, rest) \<Longrightarrow> s = concat ms @ rest \<and> list_all2 item_ok items ms"
proof (induction items s arbitrary: ms rest rule: rmatch.induct)
  case (1 s)
  then show ?case by simp
next
  case (2 p items)
  then show ?case by simp
next
  case (3 p items c cs)
  then show ?case by (auto split: if_splits option.splits)
next
  case (4 p items)
  then show ?case by (auto split: option.splits)
next
  case (5 p items c cs)
  show ?case
  proof (cases "p c")
    case True
    show ?thesis
    proof (cases "rmatch (Many p # items) cs")
      case None
      with 5 True show ?thesis by (auto split: option.splits)
    next
      case (Some r)
      obtain ms1 rest1 where r: "r = (ms1, rest1)" by (cases r)
      from "5.IH"(1)[OF True] Some r
      have s1: "cs = concat ms1 @ rest1" and a1: "list_all2 item_ok (Many p # items) ms1"
        by simp_all
      from a1 obtain m1 ms1' where ms1: "ms1 = m1 # ms1'" and m1: "list_all p m1"
        and a1': "list_all2 item_ok items ms1'"
        by (auto simp: list_all2_Cons1)
      from "5.prems" True Some r ms1 have "ms = (c # m1) # ms1'" "rest = rest1" by simp_all
      with s1 ms1 m1 a1' True show ?thesis by simp
    qed
  next
    case False
    with 5 show ?thesis by (auto split: option.splits)
  qed
qed

lemma rmatch_complete:
  "list_all2 item_ok items ms \<Longrightarrow> \<exists>r. rmatch items (concat ms @ rest) = Some r"
proof (induction items arbitrary: ms rest)
  case Nil
  then show ?case by simp
next
  case (Cons it items)
  from Cons.prems obtain m ms' where ms: "ms = m # ms'" and ok: "item_ok it m"
    and rest_ok: "list_all2 item_ok items ms'"
    by (auto simp: list_all2_Cons1)
  from Cons.IH[OF rest_ok] have ih: "\<And>rest. \<exists>r. rmatch items (concat ms' @ rest) = Some r" by blast
  show ?case
  proof (cases it)
    case (One p)
    with ok obtain c where m: "m = [c]" and pc: "p c" by (auto split: list.splits)
    from ih[of rest] obtain r where "rmatch items (concat ms' @ rest) = Some r" by blast
    with One ms m pc show ?thesis by (cases r) simp
  next
    case (Many p)
    with ok have allp: "list_all p m" by simp
    have "\<exists>r. rmatch (Many p # items) (m @ concat ms' @ rest) = Some r" using allp
    proof (induction m)
      case Nil
      show ?case
      proof (cases "concat ms' @ rest")
        case Nil
        with ih[of rest] obtain r where r: "rmatch items [] = Some r" by auto
        obtain a b where ab: "r = (a, b)" by (cases r)
        have "rmatch (Many p # items) [] = Some ([] # a, b)" using r ab by simp
        then show ?thesis by (simp only: append_Nil Nil) blast
      next
        case (Cons c cs)
        with ih[of rest] obtain r where r: "rmatch items (c # cs) = Some r" by auto
        obtain a b where ab: "r = (a, b)" by (cases r)
        have "\<exists>r'. rmatch (Many p # items) (c # cs) = Some r'"
          using r ab by (auto split: option.splits list.splits)
        then show ?thesis by (simp only: append_Nil Cons)
      qed
    next
      case (Cons c m')
      then obtain r where r: "rmatch (Many p # items) (m' @ concat ms' @ rest) = Some r"
        and pc: "p c" by auto
      obtain a b where ab: "r = (a, b)" by (cases r)
      from rmatch_sound[OF r[unfolded ab]] obtain m2 a' where "a = m2 # a'"
        by (auto simp: list_all2_Cons1)
      with r ab pc show ?case by simp
    qed
    with Many ms show ?thesis by simp
  qed
qed

lemma item_ok_One: "item_ok (One p) m \<longleftrightarrow> (\<exists>c. m = [c] \<and> p c)"
  by (auto split: list.splits)

lemma pattern_intro:
  assumes "c_quote \<notin> set k" "list_all is_space w1" "list_all is_space w2"
    and "c0 \<noteq> c_quote \<and> c0 \<noteq> c_lbracket \<and> c0 \<noteq> c_lbrace \<and> \<not> is_space c0"
    and "list_all (\<lambda>c. c \<noteq> c_comma \<and> c \<noteq> c_rbrace \<and> c \<noteq> c_rbracket \<and> c \<noteq> c_quote) mid"
    and "is_letter l"
    and "list_all (\<lambda>c. c \<noteq> c_comma \<and> c \<noteq> c_rbrace \<and> c \<noteq> c_rbracket \<and> c \<noteq> c_quote
                        \<and> \<not> is_space c) tail"
    and "list_all is_space w" "t = c_comma \<or> t = c_rbrace"
  shows "list_all2 item_ok pattern
           [[c_quote], k, [c_quote], w1, [c_colon], w2, [c0], mid, [l], tail, w, [t]]"
  using assms
  unfolding pattern_def key_prefix_def bare_token_def terminator_def
  by (auto simp: list_all_iff)

lemma list_all2_ConsE:
  assumes "list_all2 P (x # xs) ms"
  obtains m ms' where "ms = m # ms'" "P x m" "list_all2 P xs ms'"
  using assms by (auto simp: list_all2_Cons1)

lemma pattern_elim:
  assumes "list_all2 item_ok pattern ms"
  obtains k w1 w2 c0 mid l tail w t where
    "ms = [[c_quote], k, [c_quote], w1, [c_colon], w2, [c0], mid, [l], tail, w, [t]]"
    "c_quote \<notin> set k" "list_all is_space w1" "list_all is_space w2"
    "c0 \<noteq> c_quote \<and> c0 \<noteq> c_lbracket \<and> c0 \<noteq> c_lbrace \<and> \<not> is_space c0"
    "list_all (\<lambda>c. c \<noteq> c_comma \<and> c \<noteq> c_rbrace \<and> c \<noteq> c_rbracket \<and> c \<noteq> c_quote) mid"
    "is_letter l"
    "list_all (\<lambda>c. c \<noteq> c_comma \<and> c \<noteq> c_rbrace \<and> c \<noteq> c_rbracket \<and> c \<noteq> c_quote
                        \<and> \<not> is_space c) tail"
    "list_all is_space w" "t = c_comma \<or> t = c_rbrace"
proof -
  from assms have a: "list_all2 item_ok
      [One (\<lambda>c. c = c_quote), Many (\<lambda>c. c \<noteq> c_quote), One (\<lambda>c. c = c_quote),
       Many is_space, One (\<lambda>c. c = c_colon), Many is_space,
       One (\<lambda>c. c \<noteq> c_quote \<and> c \<noteq> c_lbracket \<and> c \<noteq> c_lbrace \<and> \<not> is_space c),
       Many (\<lambda>c. c \<noteq> c_comma \<and> c \<noteq> c_rbrace \<and> c \<noteq> c_rbracket \<and> c \<noteq> c_quote),
       One is_letter,
       Many (\<lambda>c. c \<noteq> c_comma \<and> c \<noteq> c_rbrace \<and> c \<noteq> c_rbracket \<and> c \<noteq> c_quote \<and> \<not> is_space c),
       Many is_space, One (\<lambda>c. c = c_comma \<or> c = c_rbrace)] ms"
    unfolding pattern_def key_prefix_def bare_token_def terminator_def by simp
  from a obtain m1 r1 where e1: "ms = m1 # r1" and p1: "item_ok (One (\<lambda>c. c = c_quote)) m1"
    and a1: "list_all2 item_ok [Many (\<lambda>c. c \<noteq> c_quote), One (\<lambda>c. c = c_quote),
       Many is_space, One (\<lambda>c. c = c_colon), Many is_space,
       One (\<lambda>c. c \<noteq> c_quote \<and> c \<noteq> c_lbracket \<and> c \<noteq> c_lbrace \<and> \<not> is_space c),
       Many (\<lambda>c. c \<noteq> c_comma \<and> c \<noteq> c_rbrace \<and> c \<noteq> c_rbracket \<and> c \<noteq> c_quote),
       One is_letter,
       Many (\<lambda>c. c \<noteq> c_comma \<and> c \<noteq> c_rbrace \<and> c \<noteq> c_rbracket \<and> c \<noteq> c_quote \<and> \<not> is_space c),
       Many is_space, One (\<lambda>c. c = c_comma \<or> c = c_rbrace)] r1"
    by (rule list_all2_ConsE)
  from a1 obtain m2 r2 where e2: "r1 = m2 # r2" and p2: "item_ok (Many (\<lambda>c. c \<noteq> c_quote)) m2"
    and a2: "list_all2 item_ok [One (\<lambda>c. c = c_quote),
       Many is_space, One (\<lambda>c. c = c_colon), Many is_space,
       One (\<lambda>c. c \<noteq> c_quote \<and> c \<noteq> c_lbracket \<and> c \<noteq> c_lbrace \<and> \<not> is_space c),
       Many (\<lambda>c. c \<noteq> c_comma \<and> c \<noteq> c_rbrace \<and> c \<noteq> c_rbracket \<and> c \<noteq> c_quote),
       One is_letter,
       Many (\<lambda>c. c \<noteq> c_comma \<and> c \<noteq> c_rbrace \<and> c \<noteq> c_rbracket \<and> c \<noteq> c_quote \<and> \<not> is_space c),
       Many is_space, One (\<lambda>c. c = c_comma \<or> c = c_rbrace)] r2"
    by (rule list_all2_ConsE)
  from a2 obtain m3 r3 where e3: "r2 = m3 # r3" and p3: "item_ok (One (\<lambda>c. c = c_quote)) m3"
    and a3: "list_all2 item_ok [Many is_space, One (\<lambda>c. c = c_colon), Many is_space,
       One (\<lambda>c. c \<noteq> c_quote \<and> c \<noteq> c_lbracket \<and> c \<noteq> c_lbrace \<and> \<not> is_space c),
       Many (\<lambda>c. c \<noteq> c_comma \<and> c \<noteq> c_rbrace \<and> c \<noteq> c_rbracket \<and> c \<noteq> c_quote),
       One is_letter,
       Many (\<lambda>c. c \<noteq> c_comma \<and> c \<noteq> c_rbrace \<and> c \<noteq> c_rbracket \<and> c \<noteq> c_quote \<and> \<not> is_space c),
       Many is_space, One (\<lambda>c. c = c_comma \<or> c = c_rbrace)] r3"
    by (rule list_all2_ConsE)
  from a3 obtain m4 r4 where e4: "r3 = m4 # r4" and p4: "item_ok (Many is_space) m4"
    and a4: "list_all2 item_ok [One (\<lambda>c. c = c_colon), Many is_space,
       One (\<lambda>c. c \<noteq> c_quote \<and> c \<noteq> c_lbracket \<and> c \<noteq> c_lbrace \<and> \<not> is_space c),
       Many (\<lambda>c. c \<noteq> c_comma \<and> c \<noteq> c_rbrace \<and> c \<noteq> c_rbracket \<and> c \<noteq> c_quote),
       One is_letter,
       Many (\<lambda>c. c \<noteq> c_comma \<and> c \<noteq> c_rbrace \<and> c \<noteq> c_rbracket \<and> c \<noteq> c_quote \<and> \<not> is_space c),
       Many is_space, One (\<lambda>c. c = c_comma \<or> c = c_rbrace)] r4"
    by (rule list_all2_ConsE)
  from a4 obtain m5 r5 where e5: "r4 = m5 # r5" and p5: "item_ok (One (\<lambda>c. c = c_colon)) m5"
    and a5: "list_all2 item_ok [Many is_space,
       One (\<lambda>c. c \<noteq> c_quote \<and> c \<noteq> c_lbracket \<and> c \<noteq> c_lbrace \<and> \<not> is_space c),
       Many (\<lambda>c. c \<noteq> c_comma \<and> c \<noteq> c_rbrace \<and> c \<noteq> c_rbracket \<and> c \<noteq> c_quote),
       One is_letter,
       Many (\<lambda>c. c \<noteq> c_comma \<and> c \<noteq> c_rbrace \<and> c \<noteq> c_rbracket \<and> c \<noteq> c_quote \<and> \<not> is_space c),
       Many is_space, One (\<lambda>c. c = c_comma \<or> c = c_rbrace)] r5"
    by (rule list_all2_ConsE)
  from a5 obtain m6 r6 where e6: "r5 = m6 # r6" and p6: "item_ok (Many is_space) m6"
    and a6: "list_all2 item_ok [
       One (\<lambda>c. c \<noteq> c_quote \<and> c \<noteq> c_lbracket \<and> c \<noteq> c_lbrace \<and> \<not> is_space c),
       Many (\<lambda>c. c \<noteq> c_comma \<and> c \<noteq> c_rbrace \<and> c \<noteq> c_rbracket \<and> c \<noteq> c_quote),
       One is_letter,
       Many (\<lambda>c. c \<noteq> c_comma \<and> c \<noteq> c_rbrace \<and> c \<noteq> c_rbracket \<and> c \<noteq> c_quote \<and> \<not> is_space c),
       Many is_space, One (\<lambda>c. c = c_comma \<or> c = c_rbrace)] r6"
    by (rule list_all2_ConsE)
  from a6 obtain m7 r7 where e7: "r6 = m7 # r7"
    and p7: "item_ok (One (\<lambda>c. c \<noteq> c_quote \<and> c \<noteq> c_lbracket \<and> c \<noteq> c_lbrace \<and> \<not> is_space c)) m7"
    and a7: "list_all2 item_ok [
       Many (\<lambda>c. c \<noteq> c_comma \<and> c \<noteq> c_rbrace \<and> c \<noteq> c_rbracket \<and> c \<noteq> c_quote),
       One is_letter,
       Many (\<lambda>c. c \<noteq> c_comma \<and> c \<noteq> c_rbrace \<and> c \<noteq> c_rbracket \<and> c \<noteq> c_quote \<and> \<not> is_space c),
       Many is_space, One (\<lambda>c. c = c_comma \<or> c = c_rbrace)] r7"
    by (rule list_all2_ConsE)
  from a7 obtain m8 r8 where e8: "r7 = m8 # r8"
    and p8: "item_ok (Many (\<lambda>c. c \<noteq> c_comma \<and> c \<noteq> c_rbrace \<and> c \<noteq> c_rbracket \<and> c \<noteq> c_quote)) m8"
    and a8: "list_all2 item_ok [One is_letter,
       Many (\<lambda>c. c \<noteq> c_comma \<and> c \<noteq> c_rbrace \<and> c \<noteq> c_rbracket \<and> c \<noteq> c_quote \<and> \<not> is_space c),
       Many is_space, One (\<lambda>c. c = c_comma \<or> c = c_rbrace)] r8"
    by (rule list_all2_ConsE)
  from a8 obtain m9 r9 where e9: "r8 = m9 # r9" and p9: "item_ok (One is_letter) m9"
    and a9: "list_all2 item_ok [
       Many (\<lambda>c. c \<noteq> c_comma \<and> c \<noteq> c_rbrace \<and> c \<noteq> c_rbracket \<and> c \<noteq> c_quote \<and> \<not> is_space c),
       Many is_space, One (\<lambda>c. c = c_comma \<or> c = c_rbrace)] r9"
    by (rule list_all2_ConsE)
  from a9 obtain m10 r10 where e10: "r9 = m10 # r10"
    and p10: "item_ok (Many (\<lambda>c. c \<noteq> c_comma \<and> c \<noteq> c_rbrace \<and> c \<noteq> c_rbracket \<and> c \<noteq> c_quote \<and> \<not> is_space c)) m10"
    and a10: "list_all2 item_ok [Many is_space, One (\<lambda>c. c = c_comma \<or> c = c_rbrace)] r10"
    by (rule list_all2_ConsE)
  from a10 obtain m11 r11 where e11: "r10 = m11 # r11" and p11: "item_ok (Many is_space) m11"
    and a11: "list_all2 item_ok [One (\<lambda>c. c = c_comma \<or> c = c_rbrace)] r11"
    by (rule list_all2_ConsE)
  from a11 obtain m12 r12 where e12: "r11 = m12 # r12"
    and p12: "item_ok (One (\<lambda>c. c = c_comma \<or> c = c_rbrace)) m12"
    and a12: "list_all2 item_ok [] r12"
    by (rule list_all2_ConsE)
  from a12 have e13: "r12 = []" by simp
  from p1[unfolded item_ok_One] have q1: "m1 = [c_quote]" by auto
  from p3[unfolded item_ok_One] have q3: "m3 = [c_quote]" by auto
  from p5[unfolded item_ok_One] have q5: "m5 = [c_colon]" by auto
  from p7[unfolded item_ok_One] obtain c0 where q7: "m7 = [c0]"
    and c0: "c0 \<noteq> c_quote \<and> c0 \<noteq> c_lbracket \<and> c0 \<noteq> c_lbrace \<and> \<not> is_space c0"
    by auto
  from p9[unfolded item_ok_One] obtain l where q9: "m9 = [l]" and l: "is_letter l" by auto
  from p12[unfolded item_ok_One] obtain t where q12: "m12 = [t]" and t: "t = c_comma \<or> t = c_rbrace"
    by auto
  have ms: "ms = [[c_quote], m2, [c_quote], m4, [c_colon], m6, [c0], m8, [l], m10, m11, [t]]"
    by (simp only: e1 e2 e3 e4 e5 e6 e7 e8 e9 e10 e11 e12 e13 q1 q3 q5 q7 q9 q12)
  from p2 have k: "c_quote \<notin> set m2" by (auto simp: list_all_iff)
  from p4 have w1: "list_all is_space m4" by simp
  from p6 have w2: "list_all is_space m6" by simp
  from p8 have mid: "list_all (\<lambda>c. c \<noteq> c_comma \<and> c \<noteq> c_rbrace \<and> c \<noteq> c_rbracket \<and> c \<noteq> c_quote) m8"
    by simp
  from p10 have tail: "list_all (\<lambda>c. c \<noteq> c_comma \<and> c \<noteq> c_rbrace \<and> c \<noteq> c_rbracket \<and> c \<noteq> c_quote
                        \<and> \<not> is_space c) m10" by simp
  from p11 have w: "list_all is_space m11" by simp
  from that[OF ms k w1 w2 c0 mid l tail w t] show thesis .
qed

lemma match_here_sound:
  assumes "match_here s = Some (g1, g2, g3, rest)"
  shows "s = g1 @ g2 @ g3 @ rest \<and> is_key_prefix g1 \<and> is_bare_token g2 \<and> is_terminator g3"
proof -
  from assms obtain ms where r: "rmatch pattern s = Some (ms, rest)"
    and g1: "g1 = concat (take 6 ms)" and g2: "g2 = concat (take 4 (drop 6 ms))"
    and g3: "g3 = concat (drop 10 ms)"
    by (auto simp: match_here_def split: option.splits)
  from rmatch_sound[OF r] have s: "s = concat ms @ rest" and ok: "list_all2 item_ok pattern ms"
    by simp_all
  from ok obtain k w1 w2 c0 mid l tail w t where
    ms: "ms = [[c_quote], k, [c_quote], w1, [c_colon], w2, [c0], mid, [l], tail, w, [t]]"
    and k: "c_quote \<notin> set k" and w1: "list_all is_space w1" and w2: "list_all is_space w2"
    and c0: "c0 \<noteq> c_quote \<and> c0 \<noteq> c_lbracket \<and> c0 \<noteq> c_lbrace \<and> \<not> is_space c0"
    and mid: "list_all (\<lambda>c. c \<noteq> c_comma \<and> c \<noteq> c_rbrace \<and> c \<noteq> c_rbracket \<and> c \<noteq> c_quote) mid"
    and l: "is_letter l"
    and tail: "list_all (\<lambda>c. c \<noteq> c_comma \<and> c \<noteq> c_rbrace \<and> c \<noteq> c_rbracket \<and> c \<noteq> c_quote
                        \<and> \<not> is_space c) tail"
    and w: "list_all is_space w" and t: "t = c_comma \<or> t = c_rbrace"
    by (rule pattern_elim)
  have e1: "g1 = c_quote # k @ c_quote # w1 @ c_colon # w2" using g1 ms by simp
  have e2: "g2 = c0 # mid @ l # tail" using g2 ms by simp
  have e3: "g3 = w @ [t]" using g3 ms by simp
  have "s = g1 @ g2 @ g3 @ rest" using s ms e1 e2 e3 by simp
  moreover have "is_key_prefix g1" unfolding is_key_prefix_def using e1 k w1 w2 by blast
  moreover have "is_bare_token g2" unfolding is_bare_token_def using e2 c0 mid l tail by blast
  moreover have "is_terminator g3" unfolding is_terminator_def using e3 w t by blast
  ultimately show ?thesis by simp
qed

lemma match_here_complete:
  assumes "is_key_prefix g1" "is_bare_token g2" "is_terminator g3"
  shows "match_here (g1 @ g2 @ g3 @ rest) \<noteq> None"
proof -
  from assms(1) obtain k w1 w2 where e1: "g1 = c_quote # k @ c_quote # w1 @ c_colon # w2"
    and k: "c_quote \<notin> set k" and w1: "list_all is_space w1" and w2: "list_all is_space w2"
    unfolding is_key_prefix_def by blast
  from assms(2) obtain c0 mid l tail where e2: "g2 = c0 # mid @ l # tail"
    and c0: "c0 \<noteq> c_quote \<and> c0 \<noteq> c_lbracket \<and> c0 \<noteq> c_lbrace \<and> \<not> is_space c0"
    and mid: "list_all (\<lambda>c. c \<noteq> c_comma \<and> c \<noteq> c_rbrace \<and> c \<noteq> c_rbracket \<and> c \<noteq> c_quote) mid"
    and l: "is_letter l"
    and tail: "list_all (\<lambda>c. c \<noteq> c_comma \<and> c \<noteq> c_rbrace \<and> c \<noteq> c_rbracket \<and> c \<noteq> c_quote
                        \<and> \<not> is_space c) tail"
    unfolding is_bare_token_def by blast
  from assms(3) obtain w t where e3: "g3 = w @ [t]" and w: "list_all is_space w"
    and t: "t = c_comma \<or> t = c_rbrace"
    unfolding is_terminator_def by blast
  let ?ms = "[[c_quote], k, [c_quote], w1, [c_colon], w2, [c0], mid, [l], tail, w, [t]]"
  have ok: "list_all2 item_ok pattern ?ms"
    by (rule pattern_intro[OF k w1 w2 c0 mid l tail w t])
  have c: "concat ?ms @ rest = g1 @ g2 @ g3 @ rest" using e1 e2 e3 by simp
  from rmatch_complete[OF ok, of rest] obtain r where "rmatch pattern (concat ?ms @ rest) = Some r"
    by blast
  then have "rmatch pattern (g1 @ g2 @ g3 @ rest) = Some r" by (simp only: c)
  then show ?thesis by (cases r) (simp add: match_here_def)
qed

lemma sub_scan_skip: "sub_scan (length xs) (xs @ rest) = sub_scan 0 rest"
  by (induction xs) simp_all

lemma quote_bare_values_match:
  assumes "match_here s = Some (g1, g2, g3, rest)"
  shows "quote_bare_values s = g1 @ [c_quote] @ g2 @ [c_quote] @ g3 @ quote_bare_values rest"
proof -
  from match_here_sound[OF assms] have s: "s = g1 @ g2 @ g3 @ rest" and kp: "is_key_prefix g1"
    by simp_all
  from kp obtain g1' where g1: "g1 = c_quote # g1'" unfolding is_key_prefix_def by auto
  let ?cs = "g1' @ g2 @ g3 @ rest"
  have sc: "s = c_quote # ?cs" using s g1 by simp
  have len: "length (g1 @ g2 @ g3) - 1 = length (g1' @ g2 @ g3)" using g1 by simp
  have "sub_scan (length (g1' @ g2 @ g3)) ((g1' @ g2 @ g3) @ rest) = sub_scan 0 rest"
    by (rule sub_scan_skip)
  then have sk: "sub_scan (length (g1 @ g2 @ g3) - 1) ?cs = sub_scan 0 rest"
    by (simp only: len append_assoc)
  have "sub_scan 0 (c_quote # ?cs)
          = g1 @ [c_quote] @ g2 @ [c_quote] @ g3 @ sub_scan (length (g1 @ g2 @ g3) - 1) ?cs"
    using assms[unfolded sc] by simp
  then show ?thesis unfolding quote_bare_values_def sc sk .
qed

lemma quote_bare_values_no_match:
  "match_here (c # cs) = None \<Longrightarrow> quote_bare_values (c # cs) = c # quote_bare_values cs"
  by (simp add: quote_bare_values_def)

lemma quote_bare_values_unchanged:
  "\<forall>k. match_here (drop k line) = None \<Longrightarrow> quote_bare_values line = line"
proof (induction line)
  case Nil
  then show ?case by (simp add: quote_bare_values_def)
next
  case (Cons c cs)
  from Cons.prems[rule_format, of 0] have m0: "match_here (c # cs) = None" by simp
  have "\<forall>k. match_here (drop k cs) = None"
  proof
    fix k show "match_here (drop k cs) = None" using Cons.prems[rule_format, of "Suc k"] by simp
  qed
  from Cons.IH[OF this] m0 show ?case by (simp add: quote_bare_values_no_match)
qed

lemma no_letter_no_match:
  assumes "\<not> list_ex is_letter line"
  shows "match_here (drop k line) = None"
proof (rule ccontr)
  assume "match_here (drop k line) \<noteq> None"
  then obtain g1 g2 g3 rest where m: "match_here (drop k line) = Some (g1, g2, g3, rest)"
    by (cases "match_here (drop k line)") auto
  from match_here_sound[OF m] have d: "drop k line = g1 @ g2 @ g3 @ rest" and b: "is_bare_token g2"
    by simp_all
  from b obtain c0 mid l tail where "g2 = c0 # mid @ l # tail" "is_letter l"
    unfolding is_bare_token_def by blast
  then have "l \<in> set g2" "is_letter l" by simp_all
  with d have "l \<in> set (drop k line)" by simp
  then have "l \<in> set line" by (rule in_set_dropD)
  with \<open>is_letter l\<close> assms show False by (auto simp: list_ex_iff)
qed

lemmas quote_eval = quote_bare_values_def match_here_def
  pattern_def key_prefix_def bare_token_def terminator_def is_space_def is_letter_def

text \<open>
  C6 (as amended). For every line, the quoter works from left to right; where the pattern
  matches it writes the key prefix, the token in quotes and the terminator, and goes on
  after the match; elsewhere it copies one character. A match is a key in quotes with a
  colon (white space allowed around the colon), then a token of at least two characters
  whose first is not a quote, \<^verbatim>\<open>[\<close>, \<^verbatim>\<open>{\<close> or white space, whose others are not \<^verbatim>\<open>,\<close>, \<^verbatim>\<open>}\<close>, \<^verbatim>\<open>]\<close>
  or a quote, and which has after its first character an ASCII letter followed by no white
  space, then optional white space and \<^verbatim>\<open>,\<close> or \<^verbatim>\<open>}\<close>; every text of this shape matches.
  A line without a letter is unchanged. \<^verbatim>\<open>"type": wall,\<close> becomes \<^verbatim>\<open>"type": "wall",\<close>,
  \<^verbatim>\<open>"count": 5,\<close> stays as it is, and \<^verbatim>\<open>"n": 1a,\<close> becomes \<^verbatim>\<open>"n": "1a",\<close>.
\<close>

theorem C6_bare_values_quoted:
  \<open>(match_here s = Some (g1, g2, g3, rest) \<longrightarrow>
      s = g1 @ g2 @ g3 @ rest \<and> is_key_prefix g1 \<and> is_bare_token g2 \<and> is_terminator g3
      \<and> quote_bare_values s = g1 @ [c_quote] @ g2 @ [c_quote] @ g3 @ quote_bare_values rest)
   \<and> (is_key_prefix h1 \<and> is_bare_token h2 \<and> is_terminator h3 \<longrightarrow>
        match_here (h1 @ h2 @ h3 @ rest') \<noteq> None)
   \<and> (match_here (c # cs) = None \<longrightarrow> quote_bare_values (c # cs) = c # quote_bare_values cs)
   \<and> quote_bare_values [] = []
   \<and> (\<not> list_ex is_letter line \<longrightarrow> quote_bare_values line = line)
   \<and> quote_bare_values (u ''"type": wall,'') = u ''"type": "wall",''
   \<and> quote_bare_values (u ''"count": 5,'') = u ''"count": 5,''
   \<and> quote_bare_values (u ''"n": 1a,'') = u ''"n": "1a",''\<close>
proof (intro conjI impI)
  assume m: "match_here s = Some (g1, g2, g3, rest)"
  from match_here_sound[OF m]
  show "s = g1 @ g2 @ g3 @ rest" "is_key_prefix g1" "is_bare_token g2" "is_terminator g3"
    by simp_all
  show "quote_bare_values s = g1 @ [c_quote] @ g2 @ [c_quote] @ g3 @ quote_bare_values rest"
    by (rule quote_bare_values_match[OF m])
next
  assume "is_key_prefix h1 \<and> is_bare_token h2 \<and> is_terminator h3"
  then show "match_here (h1 @ h2 @ h3 @ rest') \<noteq> None"
    using match_here_complete by blast
next
  assume "match_here (c # cs) = None"
  then show "quote_bare_values (c # cs) = c # quote_bare_values cs"
    by (rule quote_bare_values_no_match)
next
  show "quote_bare_values [] = []" by (simp add: quote_bare_values_def)
next
  assume "\<not> list_ex is_letter line"
  then have "\<forall>k. match_here (drop k line) = None" using no_letter_no_match by blast
  then show "quote_bare_values line = line" by (rule quote_bare_values_unchanged)
next
  show \<open>quote_bare_values (u ''"type": wall,'') = u ''"type": "wall",''\<close>
    by (simp add: quote_eval u_def)
  show \<open>quote_bare_values (u ''"count": 5,'') = u ''"count": 5,''\<close>
    by (simp add: quote_eval u_def)
  show \<open>quote_bare_values (u ''"n": 1a,'') = u ''"n": "1a",''\<close>
    by (simp add: quote_eval u_def)
qed

text \<open>C6 on the lines \<^verbatim>\<open>"type": wall,\<close> and \<^verbatim>\<open>"57": 57;\<close>.\<close>

theorem C6_witness:
  \<open>is_bare_token (u ''wall'') \<and> is_terminator (u '','')
   \<and> quote_bare_values (u ''"57": 57;'') = u ''"57": 57;''\<close>
proof -
  have m: \<open>match_here (u ''"type": wall,'') = Some (u ''"type": '', u ''wall'', u '','', [])\<close>
    by (simp add: quote_eval u_def)
  have n: \<open>\<not> list_ex is_letter (u ''"57": 57;'')\<close>
    by (simp add: is_letter_def u_def)
  from C6_bare_values_quoted
    [of \<open>u ''"type": wall,''\<close> \<open>u ''"type": ''\<close> \<open>u ''wall''\<close> \<open>u '',''\<close> \<open>[]\<close>
        \<open>u ''"a":''\<close> \<open>u ''wall''\<close> \<open>u '',''\<close> \<open>[]\<close> 0 \<open>[]\<close> \<open>u ''"57": 57;''\<close>] m n
  have a: \<open>is_bare_token (u ''wall'')\<close> and b: \<open>is_terminator (u '','')\<close>
    and c: \<open>quote_bare_values (u ''"57": 57;'') = u ''"57": 57;''\<close>
    by blast+
  from a b c show ?thesis by (simp add: u_def)
qed

text \<open>
  C6 as first stated fails: a token before \<^verbatim>\<open>]\<close> is not quoted, nor is a token of one
  letter, and the space after the colon is kept by the whole treatment of a line.
\<close>

theorem C6_counterexample:
  \<open>quote_bare_values (u ''"type": wall]'') = u ''"type": wall]''
   \<and> quote_bare_values (u ''"type": w,'') = u ''"type": w,''
   \<and> clean_line (u ''"type": wall,'') = u ''"type": "wall",''
   \<and> clean_line (u ''"type": wall,'') \<noteq> u ''"type":"wall",''
   \<and> clean_line (u ''"count": 5,'') = u ''"count": 5,''\<close>
  by (simp add: clean_eval u_def)

end
